theory Spec2Isabelle
  imports Complex_Main "HOL-Library.AList"
begin

section \<open>The face vector index of \<open>vectorIndex.py\<close>\<close>

text \<open>
  The class \<open>FaceVectorIndex\<close> keeps a FAISS \<open>IndexFlatL2\<close>, two Python dictionaries
  (\<open>id_map\<close> from FAISS position to profile id, \<open>reverse_map\<close> the other way) and an
  optional Redis client. The model below follows the methods line by line.

  Conventions of the embedding.
  \<^item> Floating-point numbers (\<open>float32\<close> components, \<open>float64\<close> scores) are read as
    real numbers: \<open>astype('float32')\<close> is the identity and arithmetic does not round.
  \<^item> A Python dictionary is an association list in insertion order; \<open>m[k] = v\<close> is
    \<open>AList.update\<close> (in place for a present key, appended for a new one) and
    \<open>k in m\<close> is \<open>map_of m k \<noteq> None\<close>.
  \<^item> A \<open>try: ... except Exception\<close> block is a function returning \<open>py_error + 'a\<close>
    together with the state reached; the method itself applies the handler.
  \<^item> Log lines are not modelled.
\<close>

subsection \<open>Errors and records\<close>

datatype py_error = ValueError | AssertionError | RuntimeError

record search_result =
  face_profile_id :: int
  similarity :: real
  distance :: real
  confidence_level :: string

text \<open>
  \<open>faiss.IndexFlatL2\<close>: the dimension \<open>d\<close> and the stored vectors, in the order they
  were added; \<open>ntotal\<close> is their number.
\<close>

record IndexFlatL2 =
  ix_d :: nat
  ix_vectors :: "real list list"

definition ntotal :: "IndexFlatL2 \<Rightarrow> nat" where
  "ntotal ix = length (ix_vectors ix)"

text \<open>
  The dictionary pickled by \<open>save_to_redis\<close> (the \<open>updated_at\<close> time stamp, which is
  only ever printed, is left out), and the two keys of the Redis store. A serialised
  index is modelled by the index it deserialises to. \<open>executed\<close> counts the pipelines
  executed on the store.
\<close>

record mappings =
  mp_id_map :: "(int \<times> int) list"
  mp_reverse_map :: "(int \<times> int) list"
  mp_dimension :: nat
  mp_total :: nat

record redis_store =
  index_key :: "IndexFlatL2 option"
  map_key :: "mappings option"
  executed :: nat

record face_vector_index =
  dimension :: nat
  index :: IndexFlatL2
  id_map :: "(int \<times> int) list"
  reverse_map :: "(int \<times> int) list"
  redis_client :: "redis_store option"

definition HIGH_CONFIDENCE_THRESHOLD :: real where
  "HIGH_CONFIDENCE_THRESHOLD = 85 / 100"

definition MEDIUM_CONFIDENCE_THRESHOLD :: real where
  "MEDIUM_CONFIDENCE_THRESHOLD = 70 / 100"

subsection \<open>The FAISS primitives used by the class\<close>

definition IndexFlatL2_new :: "nat \<Rightarrow> IndexFlatL2" where
  "IndexFlatL2_new n = \<lparr>ix_d = n, ix_vectors = []\<rparr>"

text \<open>\<open>index.add(x)\<close> for a batch \<open>x\<close> of rows; the wrapper asserts the row length.\<close>

definition faiss_add :: "IndexFlatL2 \<Rightarrow> real list list \<Rightarrow> py_error + IndexFlatL2" where
  "faiss_add ix rows =
     (if list_all (\<lambda>v. length v = ix_d ix) rows
      then Inr (ix\<lparr>ix_vectors := ix_vectors ix @ rows\<rparr>)
      else Inl AssertionError)"

text \<open>\<open>index.reconstruct(key)\<close> raises for a key that is not a stored position.\<close>

definition reconstruct :: "IndexFlatL2 \<Rightarrow> int \<Rightarrow> py_error + real list" where
  "reconstruct ix key =
     (if 0 \<le> key \<and> key < int (ntotal ix) then Inr (ix_vectors ix ! nat key)
      else Inl RuntimeError)"

definition sqdist :: "real list \<Rightarrow> real list \<Rightarrow> real" where
  "sqdist x y = (\<Sum>p\<leftarrow>zip x y. (fst p - snd p)\<^sup>2)"

text \<open>
  \<open>index.search(q, k)\<close> for one query row: the \<open>k\<close> nearest stored vectors by squared
  Euclidean distance, nearest first, as pairs (distance, position). The wrapper asserts
  the query length and \<open>k > 0\<close>. Equal distances are listed by position (FAISS leaves
  their order open). The class only asks for \<open>k \<le> ntotal\<close>, so the padding of missing
  hits with position \<open>-1\<close> never appears and is not modelled.
\<close>

definition faiss_search :: "IndexFlatL2 \<Rightarrow> real list \<Rightarrow> int \<Rightarrow> py_error + (real \<times> int) list" where
  "faiss_search ix q k =
     (if length q \<noteq> ix_d ix \<or> k \<le> 0 then Inl AssertionError
      else Inr (take (nat k)
             (sort_key fst (zip (map (sqdist q) (ix_vectors ix))
                                (map int [0..<ntotal ix])))))"

subsection \<open>Normalisation and scoring\<close>

text \<open>\<open>np.linalg.norm\<close> of a one-dimensional array.\<close>

definition linalg_norm :: "real list \<Rightarrow> real" where
  "linalg_norm e = sqrt (\<Sum>x\<leftarrow>e. x\<^sup>2)"

text \<open>Lines 124-126 and 175-177: \<open>norm = np.linalg.norm(e); if norm > 0: e = e / norm\<close>.\<close>

definition normalize :: "real list \<Rightarrow> real list" where
  "normalize e = (let norm = linalg_norm e in if norm > 0 then map (\<lambda>x. x / norm) e else e)"

text \<open>Lines 196-204: the similarity of a distance and its confidence level.\<close>

definition similarity_of :: "real \<Rightarrow> real" where
  "similarity_of dis = max 0 (1 - dis / 4)"

definition confidence_of :: "real \<Rightarrow> string" where
  "confidence_of sim =
     (if sim \<ge> HIGH_CONFIDENCE_THRESHOLD then ''high''
      else if sim \<ge> MEDIUM_CONFIDENCE_THRESHOLD then ''medium''
      else ''low'')"

subsection \<open>Persistence\<close>

text \<open>
  \<open>save_to_redis\<close>: without a client nothing is written; with one, both keys are set
  in one pipeline. The store is taken to answer once it is connected.
\<close>

definition save_to_redis :: "face_vector_index \<Rightarrow> bool \<times> face_vector_index" where
  "save_to_redis s =
     (case redis_client s of
        None \<Rightarrow> (False, s)
      | Some r \<Rightarrow>
          (True, s\<lparr>redis_client := Some (r\<lparr>
             index_key := Some (index s),
             map_key := Some \<lparr>mp_id_map = id_map s, mp_reverse_map = reverse_map s,
                              mp_dimension = dimension s, mp_total = ntotal (index s)\<rparr>,
             executed := executed r + 1\<rparr>)\<rparr>))"

text \<open>
  \<open>load_from_redis\<close>, lines 350-377: the index is assigned as soon as its key is read,
  before the mapping key is looked at.
\<close>

definition load_from_redis :: "face_vector_index \<Rightarrow> bool \<times> face_vector_index" where
  "load_from_redis s =
     (case redis_client s of
        None \<Rightarrow> (False, s)
      | Some r \<Rightarrow>
          (case index_key r of
             None \<Rightarrow> (False, s)
           | Some index_bytes \<Rightarrow>
               (let s1 = s\<lparr>index := index_bytes\<rparr> in
                case map_key r of
                  None \<Rightarrow> (False, s1)
                | Some m \<Rightarrow>
                    (True, s1\<lparr>id_map := mp_id_map m, reverse_map := mp_reverse_map m\<rparr>))))"

text \<open>
  \<open>__init__\<close>: \<open>conn = None\<close> stands for the \<open>redis.ConnectionError\<close> branch
  (memory-only mode), \<open>Some r\<close> for a store that answered the ping.
\<close>

definition FaceVectorIndex_init :: "nat \<Rightarrow> redis_store option \<Rightarrow> face_vector_index" where
  "FaceVectorIndex_init n conn =
     (let s = \<lparr>dimension = n, index = IndexFlatL2_new n, id_map = [], reverse_map = [],
               redis_client = conn\<rparr>
      in case conn of None \<Rightarrow> s | Some r \<Rightarrow> snd (load_from_redis s))"

subsection \<open>\<open>add_vector\<close>\<close>

definition add_vector_try ::
  "face_vector_index \<Rightarrow> int \<Rightarrow> real list \<Rightarrow> bool \<Rightarrow> (py_error + bool) \<times> face_vector_index" where
  "add_vector_try s pid embedding persist =
     (if map_of (reverse_map s) pid \<noteq> None then (Inr False, s)
      else if length embedding \<noteq> dimension s then (Inl ValueError, s)
      else
        (let e = normalize embedding;
             faiss_id = int (ntotal (index s))
         in case faiss_add (index s) [e] of
              Inl err \<Rightarrow> (Inl err, s)
            | Inr ix \<Rightarrow>
                (let s1 = s\<lparr>index := ix,
                             id_map := AList.update faiss_id pid (id_map s),
                             reverse_map := AList.update pid faiss_id (reverse_map s)\<rparr>;
                     s2 = (if persist \<and> redis_client s1 \<noteq> None
                           then snd (save_to_redis s1) else s1)
                 in (Inr True, s2))))"

definition add_vector ::
  "face_vector_index \<Rightarrow> int \<Rightarrow> real list \<Rightarrow> bool \<Rightarrow> bool \<times> face_vector_index" where
  "add_vector s pid embedding persist =
     (case add_vector_try s pid embedding persist of
        (Inl err, s') \<Rightarrow> (False, s')
      | (Inr b, s') \<Rightarrow> (b, s'))"

subsection \<open>\<open>search_similar\<close> and \<open>check_duplicate\<close>\<close>

text \<open>\<open>if exclude_id and ...\<close>: the truth value of an \<open>Optional[int]\<close>.\<close>

definition truthy :: "int option \<Rightarrow> bool" where
  "truthy x = (case x of None \<Rightarrow> False | Some i \<Rightarrow> i \<noteq> 0)"

text \<open>The loop of lines 184-214 over the hits, with the list \<open>results\<close> built so far.\<close>

fun search_loop ::
  "(int \<times> int) list \<Rightarrow> int \<Rightarrow> int option \<Rightarrow> (real \<times> int) list \<Rightarrow> search_result list
     \<Rightarrow> search_result list" where
  "search_loop idm k exclude_id [] results = results"
| "search_loop idm k exclude_id ((dis, idx) # rest) results =
     (if idx = - 1 \<or> map_of idm idx = None then search_loop idm k exclude_id rest results
      else
        (let pid = the (map_of idm idx) in
         if truthy exclude_id \<and> Some pid = exclude_id
         then search_loop idm k exclude_id rest results
         else
           (let sim = similarity_of dis;
                results' = results @ [\<lparr>face_profile_id = pid, similarity = sim,
                                        distance = dis, confidence_level = confidence_of sim\<rparr>]
            in if int (length results') \<ge> k then results'
               else search_loop idm k exclude_id rest results')))"

definition search_similar_try ::
  "face_vector_index \<Rightarrow> real list \<Rightarrow> int \<Rightarrow> int option \<Rightarrow> py_error + search_result list" where
  "search_similar_try s embedding k exclude_id =
     (if ntotal (index s) = 0 then Inr []
      else if length embedding \<noteq> dimension s then Inl ValueError
      else
        (case faiss_search (index s) (normalize embedding)
                (min (k * 2) (int (ntotal (index s)))) of
           Inl err \<Rightarrow> Inl err
         | Inr hits \<Rightarrow> Inr (search_loop (id_map s) k exclude_id hits [])))"

definition search_similar ::
  "face_vector_index \<Rightarrow> real list \<Rightarrow> int \<Rightarrow> int option \<Rightarrow> search_result list" where
  "search_similar s embedding k exclude_id =
     (case search_similar_try s embedding k exclude_id of
        Inl err \<Rightarrow> []
      | Inr results \<Rightarrow> results)"

definition check_duplicate ::
  "face_vector_index \<Rightarrow> real list \<Rightarrow> int option \<Rightarrow> bool \<times> search_result option" where
  "check_duplicate s embedding exclude_id =
     (case search_similar s embedding 1 exclude_id of
        [] \<Rightarrow> (False, None)
      | best_match # _ \<Rightarrow>
          (similarity best_match \<ge> HIGH_CONFIDENCE_THRESHOLD, Some best_match))"

subsection \<open>\<open>remove_vector\<close>\<close>

text \<open>
  The loop of lines 244-249 over \<open>id_map.items()\<close>, with \<open>vectors\<close> and \<open>new_id_map\<close>
  built so far.
\<close>

fun remove_loop ::
  "IndexFlatL2 \<Rightarrow> int \<Rightarrow> (int \<times> int) list \<Rightarrow> real list list \<Rightarrow> (int \<times> int) list
     \<Rightarrow> py_error + (real list list \<times> (int \<times> int) list)" where
  "remove_loop ix pid [] vectors new_id_map = Inr (vectors, new_id_map)"
| "remove_loop ix pid ((faiss_id, profile_id) # rest) vectors new_id_map =
     (if profile_id \<noteq> pid then
        (case reconstruct ix faiss_id of
           Inl err \<Rightarrow> Inl err
         | Inr vector \<Rightarrow>
             (let vectors' = vectors @ [vector]
              in remove_loop ix pid rest vectors'
                   (AList.update (int (length vectors') - 1) profile_id new_id_map)))
      else remove_loop ix pid rest vectors new_id_map)"

text \<open>The comprehension \<open>{v: k for k, v in new_id_map.items()}\<close> of line 258.\<close>

definition invert_dict :: "(int \<times> int) list \<Rightarrow> (int \<times> int) list" where
  "invert_dict m = foldl (\<lambda>acc p. AList.update (snd p) (fst p) acc) [] m"

definition remove_vector_try ::
  "face_vector_index \<Rightarrow> int \<Rightarrow> bool \<Rightarrow> (py_error + bool) \<times> face_vector_index" where
  "remove_vector_try s pid persist =
     (if map_of (reverse_map s) pid = None then (Inr False, s)
      else
        (case remove_loop (index s) pid (id_map s) [] [] of
           Inl err \<Rightarrow> (Inl err, s)
         | Inr (vectors, new_id_map) \<Rightarrow>
             (let ix0 = IndexFlatL2_new (dimension s)
              in case (if vectors \<noteq> [] then faiss_add ix0 vectors else Inr ix0) of
                   Inl err \<Rightarrow> (Inl err, s\<lparr>index := ix0\<rparr>)
                 | Inr ix \<Rightarrow>
                     (let s1 = s\<lparr>index := ix, id_map := new_id_map,
                                  reverse_map := invert_dict new_id_map\<rparr>;
                          s2 = (if persist \<and> redis_client s1 \<noteq> None
                                then snd (save_to_redis s1) else s1)
                      in (Inr True, s2)))))"

definition remove_vector ::
  "face_vector_index \<Rightarrow> int \<Rightarrow> bool \<Rightarrow> bool \<times> face_vector_index" where
  "remove_vector s pid persist =
     (case remove_vector_try s pid persist of
        (Inl err, s') \<Rightarrow> (False, s')
      | (Inr b, s') \<Rightarrow> (b, s'))"

subsection \<open>\<open>rebuild_from_database\<close>\<close>

text \<open>The loop of lines 413-415; \<open>success_count\<close> is only printed.\<close>

fun rebuild_loop ::
  "face_vector_index \<Rightarrow> (int \<times> real list) list \<Rightarrow> face_vector_index" where
  "rebuild_loop s [] = s"
| "rebuild_loop s ((pid, embedding) # rest) =
     rebuild_loop (snd (add_vector s pid embedding False)) rest"

definition rebuild_from_database ::
  "face_vector_index \<Rightarrow> (int \<times> real list) list \<Rightarrow> bool \<times> face_vector_index" where
  "rebuild_from_database s face_profiles =
     (let s0 = s\<lparr>index := IndexFlatL2_new (dimension s), id_map := [], reverse_map := []\<rparr>;
          s1 = rebuild_loop s0 face_profiles;
          s2 = (if redis_client s1 \<noteq> None then snd (save_to_redis s1) else s1)
      in (True, s2))"

subsection \<open>Notions used to state the properties\<close>

text \<open>The record appended to \<open>results\<close> at lines 206-211 for a hit at distance \<open>dis\<close>.\<close>

definition hit_result :: "int \<Rightarrow> real \<Rightarrow> search_result" where
  "hit_result pid dis = \<lparr>face_profile_id = pid, similarity = similarity_of dis,
     distance = dis, confidence_level = confidence_of (similarity_of dis)\<rparr>"

text \<open>
  The enrolled pairs (profile id, stored unit vector) in position order: the values of
  \<open>id_map\<close> in dictionary order beside the rows of the FAISS index.
\<close>

definition enrolled :: "face_vector_index \<Rightarrow> (int \<times> real list) list" where
  "enrolled s = zip (map snd (id_map s)) (ix_vectors (index s))"

text \<open>
  The state every method expects: the index has the engine's dimension and rows of that
  length, \<open>id_map\<close> has the keys \<open>0, 1, ..., ntotal - 1\<close> in this order with pairwise
  different profile ids, and \<open>reverse_map\<close> lists the same pairs, turned around.
\<close>

definition index_consistent :: "face_vector_index \<Rightarrow> bool" where
  "index_consistent s \<longleftrightarrow>
     ix_d (index s) = dimension s \<and>
     list_all (\<lambda>v. length v = dimension s) (ix_vectors (index s)) \<and>
     map fst (id_map s) = map int [0..<ntotal (index s)] \<and>
     distinct (map snd (id_map s)) \<and>
     reverse_map s = map (\<lambda>p. (snd p, fst p)) (id_map s)"

text \<open>
  The bijection property as the specification words it: as many bound profile ids as
  stored vectors, and every bound profile id leads to a position that leads back to it.
\<close>

definition identity_map_bijective :: "face_vector_index \<Rightarrow> bool" where
  "identity_map_bijective s \<longleftrightarrow>
     card (fst ` set (reverse_map s)) = ntotal (index s) \<and>
     (\<forall>pid \<in> fst ` set (reverse_map s).
        \<exists>pos. map_of (reverse_map s) pid = Some pos \<and> map_of (id_map s) pos = Some pid)"

text \<open>A store whose two keys hold a snapshot that is consistent for dimension \<open>n\<close>.\<close>

definition snapshot_consistent :: "nat \<Rightarrow> redis_store \<Rightarrow> bool" where
  "snapshot_consistent n r =
     (case index_key r of
        None \<Rightarrow> False
      | Some ix \<Rightarrow>
          (case map_key r of
             None \<Rightarrow> False
           | Some m \<Rightarrow>
               index_consistent \<lparr>dimension = n, index = ix, id_map = mp_id_map m,
                  reverse_map = mp_reverse_map m, redis_client = Some r\<rparr>))"

text \<open>
  The records a rebuild keeps, following the specification's words: go through the
  records in order and skip a record whose id is among those already kept. The first
  argument is a further acceptance test on the embedding; \<open>\<lambda>e. True\<close> gives the
  specification's rule as it is written.
\<close>

fun kept_records ::
  "(real list \<Rightarrow> bool) \<Rightarrow> int set \<Rightarrow> (int \<times> real list) list \<Rightarrow> (int \<times> real list) list" where
  "kept_records ok seen [] = []"
| "kept_records ok seen ((pid, e) # rest) =
     (if pid \<in> seen \<or> \<not> ok e then kept_records ok seen rest
      else (pid, e) # kept_records ok (insert pid seen) rest)"

subsection \<open>Example states\<close>

text \<open>
  The scenario of the specification: dimension 4, no store, id 1 enrolled with
  \<open>[1,0,0,0]\<close> and id 2 with \<open>[0,1,0,0]\<close>; an index that enrols the id 0; and four
  contents of the store: nothing, the snapshot of the scenario, an index without its
  mappings, and an index beside the mappings of an empty one.
\<close>

definition scenario_index :: face_vector_index where
  "scenario_index =
     snd (add_vector (snd (add_vector (FaceVectorIndex_init 4 None) 1 [1, 0, 0, 0] True))
            2 [0, 1, 0, 0] True)"

definition zero_id_index :: face_vector_index where
  "zero_id_index = snd (add_vector (FaceVectorIndex_init 4 None) 0 [1, 0, 0, 0] True)"

definition empty_store :: redis_store where
  "empty_store = \<lparr>index_key = None, map_key = None, executed = 0\<rparr>"

definition scenario_store :: redis_store where
  "scenario_store =
     \<lparr>index_key = Some \<lparr>ix_d = 4, ix_vectors = [[1, 0, 0, 0], [0, 1, 0, 0]]\<rparr>,
      map_key = Some \<lparr>mp_id_map = [(0, 1), (1, 2)], mp_reverse_map = [(1, 0), (2, 1)],
                       mp_dimension = 4, mp_total = 2\<rparr>,
      executed = 1\<rparr>"

definition orphan_store :: redis_store where
  "orphan_store =
     \<lparr>index_key = Some \<lparr>ix_d = 4, ix_vectors = [[1, 0, 0, 0]]\<rparr>, map_key = None, executed = 0\<rparr>"

definition stale_store :: redis_store where
  "stale_store =
     \<lparr>index_key = Some \<lparr>ix_d = 4, ix_vectors = [[1, 0, 0, 0]]\<rparr>,
      map_key = Some \<lparr>mp_id_map = [], mp_reverse_map = [], mp_dimension = 4, mp_total = 0\<rparr>,
      executed = 1\<rparr>"

section \<open>Auxiliary facts\<close>

lemma save_to_redis_fields:
  "dimension (snd (save_to_redis s)) = dimension s"
  "index (snd (save_to_redis s)) = index s"
  "id_map (snd (save_to_redis s)) = id_map s"
  "reverse_map (snd (save_to_redis s)) = reverse_map s"
  by (simp_all add: save_to_redis_def split: option.splits)

lemma add_vector_bound:
  "map_of (reverse_map s) pid \<noteq> None \<Longrightarrow> add_vector s pid e persist = (False, s)"
  by (simp add: add_vector_def add_vector_try_def)

lemma add_vector_True_bound:
  assumes "add_vector s pid e persist = (True, s')"
  shows "map_of (reverse_map s') pid = Some (int (ntotal (index s)))"
  using assms
  by (auto simp: add_vector_def add_vector_try_def Let_def save_to_redis_fields AList.update_conv'
      split: if_splits sum.splits)

lemma search_loop_exclude_zero:
  "search_loop idm k (Some 0) hits results = search_loop idm k None hits results"
  by (induction idm k "Some (0::int)" hits results rule: search_loop.induct)
     (simp_all add: truthy_def Let_def)

lemma search_loop_length:
  "length results < nat k \<Longrightarrow> length (search_loop idm k ex hits results) \<le> nat k"
proof (induction idm k ex hits results rule: search_loop.induct)
  case (1 idm k ex results)
  then show ?case by simp
next
  case (2 idm k ex dis idx rest results)
  show ?case
    using 2 by (auto simp: Let_def)
qed

lemma search_similar_length: "length (search_similar s e k ex) \<le> nat k"
proof (cases "search_similar_try s e k ex")
  case (Inl a)
  then show ?thesis by (simp add: search_similar_def)
next
  case (Inr rs)
  show ?thesis
  proof (cases "k \<le> 0")
    case True
    then have "rs = []" using Inr
      by (auto simp: search_similar_try_def faiss_search_def split: if_splits sum.splits)
    then show ?thesis using Inr by (simp add: search_similar_def)
  next
    case False
    then show ?thesis using Inr search_loop_length[of "[]" k]
      by (auto simp: search_similar_def search_similar_try_def split: if_splits sum.splits)
  qed
qed

lemma sqdist_nonneg: "0 \<le> sqdist x y"
  unfolding sqdist_def by (rule sum_list_nonneg) auto

lemma faiss_search_hits:
  assumes "faiss_search ix q k = Inr hits" and "(dis, idx) \<in> set hits"
  shows "0 \<le> dis \<and> 0 \<le> idx \<and> idx < int (ntotal ix)"
proof -
  from assms have "(dis, idx) \<in> set (zip (map (sqdist q) (ix_vectors ix)) (map int [0..<ntotal ix]))"
    by (auto simp: faiss_search_def split: if_splits dest: in_set_takeD)
  then have "dis \<in> set (map (sqdist q) (ix_vectors ix))" and "idx \<in> set (map int [0..<ntotal ix])"
    by (auto dest: set_zip_leftD set_zip_rightD)
  then show ?thesis using sqdist_nonneg by auto
qed

lemma hit_result_sel [simp]:
  "face_profile_id (hit_result pid dis) = pid"
  "similarity (hit_result pid dis) = similarity_of dis"
  "distance (hit_result pid dis) = dis"
  "confidence_level (hit_result pid dis) = confidence_of (similarity_of dis)"
  by (simp_all add: hit_result_def)

lemma search_loop_Cons:
  "search_loop idm k ex ((dis, idx) # rest) results =
     (case map_of idm idx of
        None \<Rightarrow> search_loop idm k ex rest results
      | Some pid \<Rightarrow>
          if idx = - 1 \<or> (truthy ex \<and> Some pid = ex) then search_loop idm k ex rest results
          else if k \<le> int (length results) + 1 then results @ [hit_result pid dis]
          else search_loop idm k ex rest (results @ [hit_result pid dis]))"
  by (simp add: Let_def hit_result_def split: option.splits)

lemma search_loop_results:
  "r \<in> set (search_loop idm k ex hits results) \<Longrightarrow>
   r \<in> set results \<or>
   (\<exists>dis idx. (dis, idx) \<in> set hits \<and> map_of idm idx = Some (face_profile_id r) \<and>
      r = hit_result (face_profile_id r) dis \<and>
      \<not> (truthy ex \<and> Some (face_profile_id r) = ex))"
proof (induction hits arbitrary: results)
  case Nil
  then show ?case by simp
next
  case (Cons h hits)
  obtain dis idx where h: "h = (dis, idx)" by (cases h)
  show ?case
  proof (cases "map_of idm idx")
    case None
    then show ?thesis using Cons h by (fastforce simp: search_loop_Cons)
  next
    case (Some pid)
    let ?skip = "idx = - 1 \<or> (truthy ex \<and> Some pid = ex)"
    have new: "\<exists>dis' idx'. (dis', idx') \<in> set (h # hits) \<and>
        map_of idm idx' = Some (face_profile_id r) \<and> r = hit_result (face_profile_id r) dis' \<and>
        \<not> (truthy ex \<and> Some (face_profile_id r) = ex)"
      if "r = hit_result pid dis" and "\<not> ?skip"
    proof -
      have "(dis, idx) \<in> set (h # hits)" using h by simp
      moreover have "map_of idm idx = Some (face_profile_id r)" using that Some by simp
      moreover have "r = hit_result (face_profile_id r) dis" using that by simp
      moreover have "\<not> (truthy ex \<and> Some (face_profile_id r) = ex)" using that by simp
      ultimately show ?thesis by blast
    qed
    consider "?skip" | "\<not> ?skip" "k \<le> int (length results) + 1"
      | "\<not> ?skip" "\<not> k \<le> int (length results) + 1"
      by blast
    then show ?thesis
    proof cases
      case 1
      then have "r \<in> set (search_loop idm k ex hits results)"
        using Cons.prems h Some
        by (auto simp: search_loop_Cons simp del: search_loop.simps split: if_splits)
      from Cons.IH[OF this] show ?thesis using h by auto
    next
      case 2
      then have "r \<in> set (results @ [hit_result pid dis])"
        using Cons.prems h Some
        by (auto simp: search_loop_Cons simp del: search_loop.simps split: if_splits)
      then consider "r \<in> set results" | "r = hit_result pid dis" by auto
      then show ?thesis using new 2(1) by cases blast+
    next
      case 3
      then have "r \<in> set (search_loop idm k ex hits (results @ [hit_result pid dis]))"
        using Cons.prems h Some
        by (auto simp: search_loop_Cons simp del: search_loop.simps split: if_splits)
      from Cons.IH[OF this] consider "r \<in> set results" | "r = hit_result pid dis"
        | "\<exists>dis' idx'. (dis', idx') \<in> set hits \<and>
        map_of idm idx' = Some (face_profile_id r) \<and> r = hit_result (face_profile_id r) dis' \<and>
        \<not> (truthy ex \<and> Some (face_profile_id r) = ex)"
        by auto
      then show ?thesis
      proof cases
        case 1
        then show ?thesis by simp
      next
        case 2
        then show ?thesis using new 3(1) by blast
      next
        case 3
        then show ?thesis by (metis list.set_intros(2))
      qed
    qed
  qed
qed

lemma search_similar_results:
  assumes "r \<in> set (search_similar s e k ex)"
  shows "\<exists>dis idx. 0 \<le> dis \<and> map_of (id_map s) idx = Some (face_profile_id r) \<and>
      r = hit_result (face_profile_id r) dis \<and>
      \<not> (truthy ex \<and> Some (face_profile_id r) = ex)"
proof -
  from assms obtain hits where
    h: "faiss_search (index s) (normalize e) (min (k * 2) (int (ntotal (index s)))) = Inr hits"
    and r: "r \<in> set (search_loop (id_map s) k ex hits [])"
    by (auto simp: search_similar_def search_similar_try_def split: if_splits sum.splits)
  from search_loop_results[OF r] faiss_search_hits[OF h] show ?thesis by fastforce
qed

lemma confidence_of_iff:
  "confidence_of x = ''high'' \<longleftrightarrow> 85 / 100 \<le> x"
  "confidence_of x = ''medium'' \<longleftrightarrow> 70 / 100 \<le> x \<and> x < 85 / 100"
  "confidence_of x = ''low'' \<longleftrightarrow> x < 70 / 100"
  by (auto simp: confidence_of_def HIGH_CONFIDENCE_THRESHOLD_def MEDIUM_CONFIDENCE_THRESHOLD_def)

lemma similarity_of_range: "0 \<le> dis \<Longrightarrow> 0 \<le> similarity_of dis \<and> similarity_of dis \<le> 1"
  by (simp add: similarity_of_def)

lemma update_fresh: "k \<notin> fst ` set al \<Longrightarrow> AList.update k v al = al @ [(k, v)]"
  by (induction al) auto

lemma map_of_swap:
  "distinct (map snd m) \<Longrightarrow> (k, v) \<in> set m \<Longrightarrow> map_of (map (\<lambda>p. (snd p, fst p)) m) v = Some k"
  by (induction m) (auto simp: rev_image_eqI)

lemma keys_swap: "fst ` (\<lambda>p. (snd p, fst p)) ` A = snd ` A"
  by (simp add: image_image)

lemma consistent_bijective:
  assumes "index_consistent s"
  shows "identity_map_bijective s"
proof -
  from assms have keys: "map fst (id_map s) = map int [0..<ntotal (index s)]"
    and dv: "distinct (map snd (id_map s))"
    and rev: "reverse_map s = map (\<lambda>p. (snd p, fst p)) (id_map s)"
    by (simp_all add: index_consistent_def)
  have dk: "distinct (map fst (id_map s))"
    by (simp add: keys distinct_map inj_on_def)
  have "fst ` set (reverse_map s) = set (map snd (id_map s))"
    by (simp add: rev keys_swap)
  then have "card (fst ` set (reverse_map s)) = length (map snd (id_map s))"
    using distinct_card[OF dv] by simp
  also have "\<dots> = length (map fst (id_map s))" by simp
  also have "\<dots> = ntotal (index s)" by (simp add: keys)
  finally have c: "card (fst ` set (reverse_map s)) = ntotal (index s)" .
  have "\<exists>pos. map_of (reverse_map s) pid = Some pos \<and> map_of (id_map s) pos = Some pid"
    if "pid \<in> fst ` set (reverse_map s)" for pid
  proof -
    from that have "pid \<in> snd ` set (id_map s)"
      by (simp add: rev keys_swap)
    then obtain pos where p: "(pos, pid) \<in> set (id_map s)"
      by force
    have "map_of (reverse_map s) pid = Some pos"
      unfolding rev using dv p by (rule map_of_swap)
    moreover have "map_of (id_map s) pos = Some pid"
      using dk p by simp
    ultimately show ?thesis by blast
  qed
  with c show ?thesis by (simp add: identity_map_bijective_def)
qed

lemma bound_iff:
  assumes "index_consistent s"
  shows "map_of (reverse_map s) pid = None \<longleftrightarrow> pid \<notin> set (map snd (id_map s))"
proof -
  have "fst ` set (reverse_map s) = set (map snd (id_map s))"
    using assms by (simp add: index_consistent_def keys_swap)
  then show ?thesis by (simp add: map_of_eq_None_iff)
qed

lemma add_vector_fresh:
  assumes "map_of (reverse_map s) pid = None" and "length e = dimension s"
    and "ix_d (index s) = dimension s"
  shows "add_vector s pid e False =
     (True, s\<lparr>index := (index s)\<lparr>ix_vectors := ix_vectors (index s) @ [normalize e]\<rparr>,
              id_map := AList.update (int (ntotal (index s))) pid (id_map s),
              reverse_map := AList.update pid (int (ntotal (index s))) (reverse_map s)\<rparr>)"
proof -
  have "length (normalize e) = length e" by (simp add: normalize_def Let_def)
  then show ?thesis using assms
    by (simp add: add_vector_def add_vector_try_def faiss_add_def Let_def)
qed

lemma add_vector_persist:
  "add_vector s pid e persist =
     (let r = add_vector s pid e False in
      if fst r \<and> persist \<and> redis_client s \<noteq> None then (True, snd (save_to_redis (snd r))) else r)"
  by (auto simp: add_vector_def add_vector_try_def Let_def split: sum.splits)

lemma save_to_redis_consistent:
  "index_consistent (snd (save_to_redis s)) = index_consistent s"
  by (simp add: index_consistent_def save_to_redis_fields)

lemma add_vector_consistent:
  assumes "index_consistent s"
  shows "index_consistent (snd (add_vector s pid e persist))"
proof -
  have nop: "index_consistent (snd (add_vector s pid e False))"
  proof (cases "map_of (reverse_map s) pid = None \<and> length e = dimension s")
    case False
    then have "snd (add_vector s pid e False) = s"
      by (auto simp: add_vector_def add_vector_try_def)
    then show ?thesis using assms by simp
  next
    case True
    let ?n = "ntotal (index s)"
    from assms have keys: "map fst (id_map s) = map int [0..<?n]"
      and dv: "distinct (map snd (id_map s))"
      and rev: "reverse_map s = map (\<lambda>p. (snd p, fst p)) (id_map s)"
      and d: "ix_d (index s) = dimension s"
      and vs: "list_all (\<lambda>v. length v = dimension s) (ix_vectors (index s))"
      by (simp_all add: index_consistent_def)
    have fresh_pos: "int ?n \<notin> fst ` set (id_map s)"
    proof -
      have "fst ` set (id_map s) = set (map fst (id_map s))" by simp
      also have "\<dots> = int ` {0..<?n}" by (simp add: keys)
      finally show ?thesis by auto
    qed
    have fresh_pid: "pid \<notin> fst ` set (reverse_map s)"
      using True by (simp add: map_of_eq_None_iff)
    then have pid_new: "pid \<notin> set (map snd (id_map s))"
      by (simp add: rev keys_swap)
    have len: "length (normalize e) = dimension s"
      using True by (simp add: normalize_def Let_def)
    have idm: "AList.update (int ?n) pid (id_map s) = id_map s @ [(int ?n, pid)]"
      by (rule update_fresh[OF fresh_pos])
    have rvm: "AList.update pid (int ?n) (reverse_map s) = reverse_map s @ [(pid, int ?n)]"
      by (rule update_fresh[OF fresh_pid])
    have "add_vector s pid e False =
      (True, s\<lparr>index := (index s)\<lparr>ix_vectors := ix_vectors (index s) @ [normalize e]\<rparr>,
              id_map := id_map s @ [(int ?n, pid)],
              reverse_map := reverse_map s @ [(pid, int ?n)]\<rparr>)"
      using True d by (simp add: add_vector_fresh idm rvm)
    then show ?thesis
      using d vs keys dv rev len pid_new
      by (simp add: index_consistent_def ntotal_def)
  qed
  show ?thesis
    using nop by (simp add: add_vector_persist[of s pid e persist] Let_def save_to_redis_consistent)
qed

lemma zip_upt_Cons:
  "zip (map int [a..<Suc (a + k)]) (x # xs) = (int a, x) # zip (map int [Suc a..<Suc (a + k)]) xs"
  by (simp add: upt_conv_Cons del: upt_Suc)

lemma remove_loop_survivors:
  assumes "\<forall>p \<in> set m. 0 \<le> fst p \<and> fst p < int (ntotal ix)"
    and "map fst acc = map int [0..<length vectors]"
  shows "remove_loop ix pid m vectors acc =
     Inr (vectors @ map (\<lambda>p. ix_vectors ix ! nat (fst p)) [p\<leftarrow>m. snd p \<noteq> pid],
          acc @ zip (map int [length vectors..<length vectors + length [p\<leftarrow>m. snd p \<noteq> pid]])
                    (map snd [p\<leftarrow>m. snd p \<noteq> pid]))"
  using assms
proof (induction m arbitrary: vectors acc)
  case Nil
  then show ?case by simp
next
  case (Cons p m)
  obtain faiss_id profile_id where p: "p = (faiss_id, profile_id)" by (cases p)
  show ?case
  proof (cases "profile_id = pid")
    case True
    then show ?thesis using Cons p by simp
  next
    case False
    let ?v = "ix_vectors ix ! nat faiss_id"
    have rec: "reconstruct ix faiss_id = Inr ?v"
      using Cons.prems(1) p by (simp add: reconstruct_def)
    have fresh: "int (length vectors) \<notin> fst ` set acc"
    proof -
      have "fst ` set acc = set (map fst acc)" by simp
      also have "\<dots> = int ` {0..<length vectors}" by (simp add: Cons.prems(2))
      finally show ?thesis by auto
    qed
    have upd: "AList.update (int (length (vectors @ [?v])) - 1) profile_id acc
                 = acc @ [(int (length vectors), profile_id)]"
      using update_fresh[OF fresh] by simp
    have keys': "map fst (acc @ [(int (length vectors), profile_id)])
                   = map int [0..<length (vectors @ [?v])]"
      by (simp add: Cons.prems(2))
    have step: "remove_loop ix pid (p # m) vectors acc =
        remove_loop ix pid m (vectors @ [?v]) (acc @ [(int (length vectors), profile_id)])"
      using False p rec upd by (simp add: Let_def)
    have ih: "remove_loop ix pid m (vectors @ [?v]) (acc @ [(int (length vectors), profile_id)]) =
       Inr ((vectors @ [?v]) @ map (\<lambda>p. ix_vectors ix ! nat (fst p)) [p\<leftarrow>m. snd p \<noteq> pid],
          (acc @ [(int (length vectors), profile_id)]) @
             zip (map int [length (vectors @ [?v])..<length (vectors @ [?v]) + length [p\<leftarrow>m. snd p \<noteq> pid]])
                    (map snd [p\<leftarrow>m. snd p \<noteq> pid]))"
      using Cons.IH[OF _ keys'] Cons.prems(1) by simp
    show ?thesis
      unfolding step ih using False p
      by (simp add: zip_upt_Cons del: upt_Suc)
  qed
qed

lemma invert_dict_foldl:
  "distinct (map fst acc @ map snd m) \<Longrightarrow>
   foldl (\<lambda>acc p. AList.update (snd p) (fst p) acc) acc m = acc @ map (\<lambda>p. (snd p, fst p)) m"
proof (induction m arbitrary: acc)
  case Nil
  then show ?case by simp
next
  case (Cons p m)
  have "snd p \<notin> fst ` set acc" using Cons.prems by auto
  then have u: "AList.update (snd p) (fst p) acc = acc @ [(snd p, fst p)]"
    by (rule update_fresh)
  have "distinct (map fst (acc @ [(snd p, fst p)]) @ map snd m)"
    using Cons.prems by auto
  from Cons.IH[OF this] show ?case by (simp add: u)
qed

lemma invert_dict_distinct:
  "distinct (map snd m) \<Longrightarrow> invert_dict m = map (\<lambda>p. (snd p, fst p)) m"
  using invert_dict_foldl[of "[]" m] by (simp add: invert_dict_def)

lemma zip_upt_nth:
  "length xs = n \<Longrightarrow> zip (map int [0..<n]) xs = map (\<lambda>i. (int i, xs ! i)) [0..<n]"
  by (rule nth_equalityI) auto

lemma zip_nth_nth:
  "length xs = n \<Longrightarrow> length ys = n \<Longrightarrow> zip xs ys = map (\<lambda>i. (xs ! i, ys ! i)) [0..<n]"
  by (rule nth_equalityI) auto

lemma id_map_zip:
  assumes "index_consistent s"
  shows "id_map s = zip (map int [0..<ntotal (index s)]) (map snd (id_map s))"
proof -
  have "id_map s = zip (map fst (id_map s)) (map snd (id_map s))"
    by (simp add: zip_map_fst_snd)
  then show ?thesis using assms by (simp add: index_consistent_def)
qed

lemma consistent_length:
  "index_consistent s \<Longrightarrow> length (id_map s) = ntotal (index s)"
  by (metis index_consistent_def length_map length_upt minus_nat.diff_0)

lemma filter_neq_absent: "x \<notin> set xs \<Longrightarrow> filter (\<lambda>y. y \<noteq> x) xs = xs"
  by (induction xs) auto

lemma length_filter_neq:
  "distinct xs \<Longrightarrow> x \<in> set xs \<Longrightarrow> Suc (length (filter (\<lambda>y. y \<noteq> x) xs)) = length xs"
  by (induction xs) (auto simp: filter_neq_absent)

lemma invert_dict_Nil: "invert_dict [] = []"
  by (simp add: invert_dict_def)

lemma remove_vector_persist:
  "remove_vector s pid persist =
     (let r = remove_vector s pid False in
      if fst r \<and> persist \<and> redis_client s \<noteq> None then (True, snd (save_to_redis (snd r))) else r)"
  by (auto simp: remove_vector_def remove_vector_try_def Let_def split: sum.splits prod.splits)

lemma remove_vector_unbound:
  "map_of (reverse_map s) pid = None \<Longrightarrow> remove_vector s pid persist = (False, s)"
  by (simp add: remove_vector_def remove_vector_try_def)

lemma remove_vector_bound:
  assumes c: "index_consistent s" and b: "map_of (reverse_map s) pid \<noteq> None"
  shows "remove_vector s pid False =
    (True, s\<lparr>index := \<lparr>ix_d = dimension s,
                        ix_vectors = map (\<lambda>p. ix_vectors (index s) ! nat (fst p))
                                         [p\<leftarrow>id_map s. snd p \<noteq> pid]\<rparr>,
             id_map := zip (map int [0..<length [p\<leftarrow>id_map s. snd p \<noteq> pid]])
                           (map snd [p\<leftarrow>id_map s. snd p \<noteq> pid]),
             reverse_map := map (\<lambda>p. (snd p, fst p))
                (zip (map int [0..<length [p\<leftarrow>id_map s. snd p \<noteq> pid]])
                           (map snd [p\<leftarrow>id_map s. snd p \<noteq> pid]))\<rparr>)"
proof -
  let ?sv = "[p\<leftarrow>id_map s. snd p \<noteq> pid]"
  let ?vs = "map (\<lambda>p. ix_vectors (index s) ! nat (fst p)) ?sv"
  let ?nm = "zip (map int [0..<length ?sv]) (map snd ?sv)"
  from c have keys: "map fst (id_map s) = map int [0..<ntotal (index s)]"
    and dv: "distinct (map snd (id_map s))"
    and vsl: "list_all (\<lambda>v. length v = dimension s) (ix_vectors (index s))"
    by (simp_all add: index_consistent_def)
  have range: "\<forall>p \<in> set (id_map s). 0 \<le> fst p \<and> fst p < int (ntotal (index s))"
  proof
    fix p assume "p \<in> set (id_map s)"
    then have "fst p \<in> set (map fst (id_map s))" by simp
    then show "0 \<le> fst p \<and> fst p < int (ntotal (index s))" unfolding keys by auto
  qed
  have loop: "remove_loop (index s) pid (id_map s) [] [] = Inr (?vs, ?nm)"
    using remove_loop_survivors[OF range, of "[]" "[]" pid] by simp
  have lens: "list_all (\<lambda>v. length v = dimension s) ?vs"
  proof -
    have "length (ix_vectors (index s) ! nat (fst p)) = dimension s" if "p \<in> set ?sv" for p
    proof -
      from that range have "nat (fst p) < length (ix_vectors (index s))"
        by (auto simp: ntotal_def)
      then have "ix_vectors (index s) ! nat (fst p) \<in> set (ix_vectors (index s))"
        by (rule nth_mem)
      with vsl show ?thesis by (simp add: list_all_iff)
    qed
    then show ?thesis by (simp add: list_all_iff)
  qed
  have add: "faiss_add \<lparr>ix_d = dimension s, ix_vectors = []\<rparr> ?vs
               = Inr \<lparr>ix_d = dimension s, ix_vectors = ?vs\<rparr>"
    using lens by (simp add: faiss_add_def)
  have "distinct (map snd ?sv)"
    using dv by (simp add: distinct_map_filter)
  then have "distinct (map snd ?nm)" by simp
  then have inv: "invert_dict ?nm = map (\<lambda>p. (snd p, fst p)) ?nm"
    by (rule invert_dict_distinct)
  show ?thesis
    using b
    by (simp add: remove_vector_def remove_vector_try_def loop add inv Let_def
        IndexFlatL2_new_def invert_dict_Nil)
qed

lemma remove_vector_consistent:
  assumes c: "index_consistent s"
  shows "index_consistent (snd (remove_vector s pid persist))"
proof -
  have nop: "index_consistent (snd (remove_vector s pid False))"
  proof (cases "map_of (reverse_map s) pid = None")
    case True
    then show ?thesis using c by (simp add: remove_vector_unbound)
  next
    case False
    let ?sv = "[p\<leftarrow>id_map s. snd p \<noteq> pid]"
    from c have dv: "distinct (map snd (id_map s))"
      and vsl: "list_all (\<lambda>v. length v = dimension s) (ix_vectors (index s))"
      and keys: "map fst (id_map s) = map int [0..<ntotal (index s)]"
      by (simp_all add: index_consistent_def)
    have dsv: "distinct (map snd ?sv)"
      using dv by (simp add: distinct_map_filter)
    have "length (ix_vectors (index s) ! nat (fst p)) = dimension s" if "p \<in> set ?sv" for p
    proof -
      from that have "fst p \<in> set (map fst (id_map s))" by simp
      then have "nat (fst p) < length (ix_vectors (index s))"
        unfolding keys by (auto simp: ntotal_def)
      then have "ix_vectors (index s) ! nat (fst p) \<in> set (ix_vectors (index s))"
        by (rule nth_mem)
      with vsl show ?thesis by (simp add: list_all_iff)
    qed
    then have lens: "list_all (\<lambda>v. length v = dimension s)
                       (map (\<lambda>p. ix_vectors (index s) ! nat (fst p)) ?sv)"
      by (simp add: list_all_iff)
    show ?thesis
      using dsv lens
      by (simp add: remove_vector_bound[OF c False] index_consistent_def ntotal_def)
  qed
  show ?thesis
    using nop
    by (simp add: remove_vector_persist[of s pid persist] Let_def save_to_redis_consistent)
qed

lemma enrolled_save [simp]: "enrolled (snd (save_to_redis s)) = enrolled s"
  by (simp add: enrolled_def save_to_redis_fields)

lemma remove_vector_enrolled:
  assumes c: "index_consistent s" and b: "map_of (reverse_map s) pid \<noteq> None"
  shows "fst (remove_vector s pid persist)"
    and "enrolled (snd (remove_vector s pid persist)) = [q\<leftarrow>enrolled s. fst q \<noteq> pid]"
    and "Suc (ntotal (index (snd (remove_vector s pid persist)))) = ntotal (index s)"
proof -
  let ?n = "ntotal (index s)"
  let ?ids = "map snd (id_map s)"
  let ?xb = "ix_vectors (index s)"
  let ?sv = "[p\<leftarrow>id_map s. snd p \<noteq> pid]"
  let ?keep = "[i\<leftarrow>[0..<?n]. ?ids ! i \<noteq> pid]"
  have len: "length ?ids = ?n" using consistent_length[OF c] by simp
  have idm: "id_map s = map (\<lambda>i. (int i, ?ids ! i)) [0..<?n]"
    using id_map_zip[OF c] zip_upt_nth[OF len] by simp
  have sv: "?sv = map (\<lambda>i. (int i, ?ids ! i)) ?keep"
    by (subst idm) (simp add: filter_map comp_def)
  have en: "enrolled s = map (\<lambda>i. (?ids ! i, ?xb ! i)) [0..<?n]"
    unfolding enrolled_def using zip_nth_nth[OF len, of ?xb] by (simp add: ntotal_def)
  have r: "remove_vector s pid False = (True, s\<lparr>index := \<lparr>ix_d = dimension s,
                        ix_vectors = map (\<lambda>p. ?xb ! nat (fst p)) ?sv\<rparr>,
             id_map := zip (map int [0..<length ?sv]) (map snd ?sv),
             reverse_map := map (\<lambda>p. (snd p, fst p))
                (zip (map int [0..<length ?sv]) (map snd ?sv))\<rparr>)"
    by (rule remove_vector_bound[OF c b])
  have e0: "enrolled (snd (remove_vector s pid False)) = [q\<leftarrow>enrolled s. fst q \<noteq> pid]"
  proof -
    have "enrolled (snd (remove_vector s pid False)) =
            zip (map snd ?sv) (map (\<lambda>p. ?xb ! nat (fst p)) ?sv)"
      by (simp add: r enrolled_def)
    also have "\<dots> = map (\<lambda>p. (snd p, ?xb ! nat (fst p))) ?sv"
      by (simp add: zip_map_map zip_same_conv_map)
    also have "\<dots> = map (\<lambda>i. (?ids ! i, ?xb ! i)) ?keep"
      by (subst sv) (simp add: comp_def)
    also have "\<dots> = [q\<leftarrow>enrolled s. fst q \<noteq> pid]"
      by (subst en) (simp add: filter_map comp_def)
    finally show ?thesis .
  qed
  have pid_in: "pid \<in> set ?ids"
    using b bound_iff[OF c, of pid] by simp
  have dv: "distinct ?ids" using c by (simp add: index_consistent_def)
  have "length ?sv = length (filter (\<lambda>y. y \<noteq> pid) ?ids)"
    by (simp add: filter_map comp_def)
  then have "Suc (length ?sv) = length ?ids"
    using length_filter_neq[OF dv pid_in] by simp
  then have n0: "Suc (ntotal (index (snd (remove_vector s pid False)))) = ?n"
    using len by (simp add: r ntotal_def)
  have t0: "fst (remove_vector s pid False)" by (simp add: r)
  show "fst (remove_vector s pid persist)"
    using t0 by (simp add: remove_vector_persist[of s pid persist] Let_def)
  show "enrolled (snd (remove_vector s pid persist)) = [q\<leftarrow>enrolled s. fst q \<noteq> pid]"
    using e0 by (simp add: remove_vector_persist[of s pid persist] Let_def)
  show "Suc (ntotal (index (snd (remove_vector s pid persist)))) = ?n"
    using n0 by (simp add: remove_vector_persist[of s pid persist] Let_def save_to_redis_fields)
qed

lemma enrolled_ids:
  "index_consistent s \<Longrightarrow> map fst (enrolled s) = map snd (id_map s)"
  using consistent_length[of s] by (simp add: enrolled_def ntotal_def)

lemma search_similar_ids:
  "r \<in> set (search_similar s q k ex) \<Longrightarrow> face_profile_id r \<in> snd ` set (id_map s)"
  by (metis search_similar_results map_of_SomeD image_eqI snd_conv)

lemma map_swap_zip: "map (\<lambda>p. (snd p, fst p)) m = zip (map snd m) (map fst m)"
  by (induction m) auto

lemma consistent_enrolled:
  assumes "index_consistent s"
  shows "ix_vectors (index s) = map snd (enrolled s)"
    and "id_map s = zip (map int [0..<length (enrolled s)]) (map fst (enrolled s))"
    and "reverse_map s = zip (map fst (enrolled s)) (map int [0..<length (enrolled s)])"
proof -
  have len: "length (map snd (id_map s)) = length (ix_vectors (index s))"
    using consistent_length[OF assms] by (simp add: ntotal_def)
  show v: "ix_vectors (index s) = map snd (enrolled s)"
    using len by (simp add: enrolled_def)
  have f: "map fst (enrolled s) = map snd (id_map s)"
    using len by (simp add: enrolled_def)
  have l: "length (enrolled s) = ntotal (index s)"
    using len by (simp add: enrolled_def ntotal_def)
  show i: "id_map s = zip (map int [0..<length (enrolled s)]) (map fst (enrolled s))"
    using id_map_zip[OF assms] by (simp add: f l)
  have "reverse_map s = map (\<lambda>p. (snd p, fst p)) (id_map s)"
    using assms by (simp add: index_consistent_def)
  also have "\<dots> = zip (map snd (id_map s)) (map fst (id_map s))"
    by (rule map_swap_zip)
  finally show "reverse_map s = zip (map fst (enrolled s)) (map int [0..<length (enrolled s)])"
    using assms by (simp add: f l index_consistent_def)
qed

lemma add_vector_enrolled:
  assumes c: "index_consistent s"
  shows "enrolled (snd (add_vector s pid e False)) =
           (if pid \<in> fst ` set (enrolled s) \<or> length e \<noteq> dimension s then enrolled s
            else enrolled s @ [(pid, normalize e)])"
    and "dimension (snd (add_vector s pid e False)) = dimension s"
    and "redis_client (snd (add_vector s pid e False)) = redis_client s"
    and "fst (add_vector s pid e False) \<longleftrightarrow>
           \<not> (pid \<in> fst ` set (enrolled s) \<or> length e \<noteq> dimension s)"
proof -
  let ?n = "ntotal (index s)"
  have ids: "fst ` set (enrolled s) = set (map snd (id_map s))"
    using enrolled_ids[OF c] by (metis set_map)
  have bound: "map_of (reverse_map s) pid = None \<longleftrightarrow> pid \<notin> fst ` set (enrolled s)"
    using bound_iff[OF c] ids by simp
  have len: "length (id_map s) = length (ix_vectors (index s))"
    using consistent_length[OF c] by (simp add: ntotal_def)
  have "enrolled (snd (add_vector s pid e False)) =
           (if pid \<in> fst ` set (enrolled s) \<or> length e \<noteq> dimension s then enrolled s
            else enrolled s @ [(pid, normalize e)]) \<and>
        dimension (snd (add_vector s pid e False)) = dimension s \<and>
        redis_client (snd (add_vector s pid e False)) = redis_client s \<and>
        (fst (add_vector s pid e False) \<longleftrightarrow>
           \<not> (pid \<in> fst ` set (enrolled s) \<or> length e \<noteq> dimension s))"
  proof (cases "map_of (reverse_map s) pid = None \<and> length e = dimension s")
    case False
    then have "add_vector s pid e False = (False, s)"
      by (auto simp: add_vector_def add_vector_try_def)
    then show ?thesis using False bound by auto
  next
    case True
    have d: "ix_d (index s) = dimension s" using c by (simp add: index_consistent_def)
    have keys: "map fst (id_map s) = map int [0..<?n]" using c by (simp add: index_consistent_def)
    have "int ?n \<notin> set (map fst (id_map s))" unfolding keys by auto
    then have fresh_pos: "int ?n \<notin> fst ` set (id_map s)" by simp
    have idm: "AList.update (int ?n) pid (id_map s) = id_map s @ [(int ?n, pid)]"
      by (rule update_fresh[OF fresh_pos])
    have "add_vector s pid e False =
      (True, s\<lparr>index := (index s)\<lparr>ix_vectors := ix_vectors (index s) @ [normalize e]\<rparr>,
              id_map := id_map s @ [(int ?n, pid)],
              reverse_map := AList.update pid (int ?n) (reverse_map s)\<rparr>)"
      using True d by (simp add: add_vector_fresh idm)
    then show ?thesis using True bound len by (simp add: enrolled_def)
  qed
  then show "enrolled (snd (add_vector s pid e False)) =
           (if pid \<in> fst ` set (enrolled s) \<or> length e \<noteq> dimension s then enrolled s
            else enrolled s @ [(pid, normalize e)])"
    and "dimension (snd (add_vector s pid e False)) = dimension s"
    and "redis_client (snd (add_vector s pid e False)) = redis_client s"
    and "fst (add_vector s pid e False) \<longleftrightarrow>
           \<not> (pid \<in> fst ` set (enrolled s) \<or> length e \<noteq> dimension s)"
    by blast+
qed

lemma rebuild_loop_enrolled:
  assumes "index_consistent s"
  shows "index_consistent (rebuild_loop s recs) \<and>
         enrolled (rebuild_loop s recs) =
           enrolled s @ map (\<lambda>r. (fst r, normalize (snd r)))
             (kept_records (\<lambda>e. length e = dimension s) (fst ` set (enrolled s)) recs) \<and>
         dimension (rebuild_loop s recs) = dimension s \<and>
         redis_client (rebuild_loop s recs) = redis_client s"
  using assms
proof (induction recs arbitrary: s)
  case Nil
  then show ?case by simp
next
  case (Cons r recs)
  obtain pid e where r: "r = (pid, e)" by (cases r)
  let ?s1 = "snd (add_vector s pid e False)"
  have c1: "index_consistent ?s1" using Cons.prems by (rule add_vector_consistent)
  note a = add_vector_enrolled[OF Cons.prems, of pid e]
  note ih = Cons.IH[OF c1]
  show ?case
  proof (cases "pid \<in> fst ` set (enrolled s) \<or> length e \<noteq> dimension s")
    case True
    then show ?thesis using ih a r by simp
  next
    case False
    then have "fst ` set (enrolled ?s1) = insert pid (fst ` set (enrolled s))"
      using a(1) by simp
    then show ?thesis using ih a r False by simp
  qed
qed

lemma rebuild_from_database_enrolled:
  "fst (rebuild_from_database s recs) \<and>
   index_consistent (snd (rebuild_from_database s recs)) \<and>
   enrolled (snd (rebuild_from_database s recs)) =
     map (\<lambda>r. (fst r, normalize (snd r))) (kept_records (\<lambda>e. length e = dimension s) {} recs) \<and>
   dimension (snd (rebuild_from_database s recs)) = dimension s"
proof -
  let ?s0 = "s\<lparr>index := IndexFlatL2_new (dimension s), id_map := [], reverse_map := []\<rparr>"
  have c0: "index_consistent ?s0"
    by (simp add: index_consistent_def IndexFlatL2_new_def ntotal_def)
  have e0: "enrolled ?s0 = []" by (simp add: enrolled_def)
  from rebuild_loop_enrolled[OF c0, of recs] e0 show ?thesis
    by (simp add: rebuild_from_database_def Let_def save_to_redis_consistent save_to_redis_fields)
qed

lemma init_consistent:
  "index_consistent (FaceVectorIndex_init n None)"
  "index_key r = None \<Longrightarrow> index_consistent (FaceVectorIndex_init n (Some r))"
  "snapshot_consistent n r \<Longrightarrow> index_consistent (FaceVectorIndex_init n (Some r))"
  by (auto simp: FaceVectorIndex_init_def load_from_redis_def index_consistent_def
      snapshot_consistent_def IndexFlatL2_new_def ntotal_def Let_def split: option.splits)

lemma faiss_search_hits_dist:
  assumes "faiss_search ix q k = Inr hits" and "(dis, idx) \<in> set hits"
  shows "0 \<le> idx \<and> idx < int (ntotal ix) \<and> dis = sqdist q (ix_vectors ix ! nat idx)"
proof -
  from assms have "(dis, idx) \<in> set (zip (map (sqdist q) (ix_vectors ix)) (map int [0..<ntotal ix]))"
    by (auto simp: faiss_search_def split: if_splits dest: in_set_takeD)
  then obtain i where "i < ntotal ix" "dis = sqdist q (ix_vectors ix ! i)" "idx = int i"
    by (auto simp: in_set_zip ntotal_def)
  then show ?thesis by simp
qed

lemma search_similar_distance:
  assumes "r \<in> set (search_similar s e k ex)"
  shows "\<exists>idx. 0 \<le> idx \<and> idx < int (ntotal (index s)) \<and>
      map_of (id_map s) idx = Some (face_profile_id r) \<and>
      distance r = sqdist (normalize e) (ix_vectors (index s) ! nat idx)"
proof -
  from assms obtain hits where
    h: "faiss_search (index s) (normalize e) (min (k * 2) (int (ntotal (index s)))) = Inr hits"
    and r: "r \<in> set (search_loop (id_map s) k ex hits [])"
    by (auto simp: search_similar_def search_similar_try_def split: if_splits sum.splits)
  from search_loop_results[OF r] obtain dis idx where
    "(dis, idx) \<in> set hits" "map_of (id_map s) idx = Some (face_profile_id r)"
    "r = hit_result (face_profile_id r) dis"
    by auto
  moreover from this have "distance r = dis" by (metis hit_result_sel(3))
  ultimately show ?thesis using faiss_search_hits_dist[OF h] by blast
qed

lemma linalg_norm_nonneg: "0 \<le> linalg_norm e"
  unfolding linalg_norm_def by (intro real_sqrt_ge_zero sum_list_nonneg) auto

lemma normalize_cases:
  "normalize e = (if linalg_norm e = 0 then e else map (\<lambda>x. x / linalg_norm e) e)"
  using linalg_norm_nonneg[of e] by (auto simp: normalize_def Let_def)

lemma linalg_norm_normalize:
  assumes "linalg_norm e \<noteq> 0"
  shows "linalg_norm (normalize e) = 1"
proof -
  let ?S = "\<Sum>x\<leftarrow>e. x\<^sup>2"
  have S0: "0 \<le> ?S" by (rule sum_list_nonneg) auto
  have n2: "(linalg_norm e)\<^sup>2 = ?S" using S0 by (simp add: linalg_norm_def)
  have Sne: "?S \<noteq> 0" using assms by (auto simp: linalg_norm_def)
  have "(\<Sum>x\<leftarrow>map (\<lambda>x. x / linalg_norm e) e. x\<^sup>2) = (\<Sum>x\<leftarrow>e. x\<^sup>2 * (1 / ?S))"
    by (simp add: comp_def power_divide n2)
  also have "\<dots> = ?S * (1 / ?S)" by (rule sum_list_mult_const)
  also have "\<dots> = 1" using Sne by simp
  finally show ?thesis using assms by (simp add: normalize_cases linalg_norm_def)
qed

lemma add_vector_stores_normalized:
  assumes "map_of (reverse_map s) pid = None" and "length e = dimension s"
    and "ix_d (index s) = dimension s"
  shows "fst (add_vector s pid e persist)"
    and "ix_vectors (index (snd (add_vector s pid e persist))) = ix_vectors (index s) @ [normalize e]"
  using add_vector_fresh[OF assms]
  by (simp_all add: add_vector_persist[of s pid e persist] Let_def save_to_redis_fields)

lemmas eval_defs =
  FaceVectorIndex_init_def add_vector_def add_vector_try_def IndexFlatL2_new_def faiss_add_def
  ntotal_def normalize_def Let_def search_similar_def search_similar_try_def faiss_search_def
  sqdist_def similarity_of_def confidence_of_def HIGH_CONFIDENCE_THRESHOLD_def
  MEDIUM_CONFIDENCE_THRESHOLD_def truthy_def upt_rec load_from_redis_def save_to_redis_def

lemma linalg_norm_examples [simp]:
  "linalg_norm [1, 0, 0, 0] = 1" "linalg_norm [0, 1, 0, 0] = 1" "linalg_norm [0, 0, 1, 0] = 1"
  "linalg_norm [0, 0, 0, 0] = 0" "linalg_norm [2, 0, 0, 0] = 2" "linalg_norm [0, 2, 0, 0] = 2"
  by (simp_all add: linalg_norm_def)

lemma init_None_eq:
  "FaceVectorIndex_init 4 None = \<lparr>dimension = 4, index = \<lparr>ix_d = 4, ix_vectors = []\<rparr>,
      id_map = [], reverse_map = [], redis_client = None\<rparr>"
  by (simp add: eval_defs)

lemma scenario_index_eq:
  "scenario_index = \<lparr>dimension = 4,
      index = \<lparr>ix_d = 4, ix_vectors = [[1, 0, 0, 0], [0, 1, 0, 0]]\<rparr>,
      id_map = [(0, 1), (1, 2)], reverse_map = [(1, 0), (2, 1)], redis_client = None\<rparr>"
  by (simp add: scenario_index_def eval_defs)

lemma zero_id_index_eq:
  "zero_id_index = \<lparr>dimension = 4, index = \<lparr>ix_d = 4, ix_vectors = [[1, 0, 0, 0]]\<rparr>,
      id_map = [(0, 0)], reverse_map = [(0, 0)], redis_client = None\<rparr>"
  by (simp add: zero_id_index_def eval_defs)

lemma scenario_consistent: "index_consistent scenario_index"
  by (simp add: scenario_index_eq index_consistent_def ntotal_def upt_rec)

lemma scenario_enrolled: "enrolled scenario_index = [(1, [1, 0, 0, 0]), (2, [0, 1, 0, 0])]"
  by (simp add: scenario_index_eq enrolled_def)

lemma scenario_search_2:
  "search_similar scenario_index [1, 0, 0, 0] 2 None =
     [\<lparr>face_profile_id = 1, similarity = 1, distance = 0, confidence_level = ''high''\<rparr>,
      \<lparr>face_profile_id = 2, similarity = 1 / 2, distance = 2, confidence_level = ''low''\<rparr>]"
  by (simp add: scenario_index_eq eval_defs)

lemma scenario_search_1:
  "search_similar scenario_index [1, 0, 0, 0] 1 None =
     [\<lparr>face_profile_id = 1, similarity = 1, distance = 0, confidence_level = ''high''\<rparr>]"
  "search_similar scenario_index [0, 0, 1, 0] 1 None =
     [\<lparr>face_profile_id = 1, similarity = 1 / 2, distance = 2, confidence_level = ''low''\<rparr>]"
  "search_similar scenario_index [2, 0, 0, 0] 1 None =
     [\<lparr>face_profile_id = 1, similarity = 1, distance = 0, confidence_level = ''high''\<rparr>]"
  by (simp_all add: scenario_index_eq eval_defs)

lemma zero_id_search:
  "search_similar zero_id_index [1, 0, 0, 0] 1 None =
     [\<lparr>face_profile_id = 0, similarity = 1, distance = 0, confidence_level = ''high''\<rparr>]"
  by (simp add: zero_id_index_eq eval_defs)

section \<open>The claims\<close>

subsection \<open>C1: dimension mismatch\<close>

text \<open>
  C1, as the code has it. For an embedding whose length differs from the engine's
  dimension, \<open>add_vector\<close> returns \<open>False\<close> and \<open>search_similar\<close> returns the empty
  list, and the state is unchanged. When the profile id is unbound (insert) or the index
  is not empty (search), the \<open>try\<close> block raises \<open>ValueError\<close> before normalising or
  changing anything; the method's own handler turns it into that ordinary return value,
  so nothing is raised to the caller.
\<close>

theorem dimension_mismatch_returns_failure:
  assumes "length e \<noteq> dimension s"
  shows "add_vector s pid e persist = (False, s) \<and>
         search_similar s e k ex = [] \<and>
         (map_of (reverse_map s) pid = None \<longrightarrow>
            add_vector_try s pid e persist = (Inl ValueError, s)) \<and>
         (ntotal (index s) \<noteq> 0 \<longrightarrow> search_similar_try s e k ex = Inl ValueError)"
  using assms
  by (simp add: add_vector_def add_vector_try_def search_similar_def search_similar_try_def)

theorem dimension_mismatch_returns_failure_witness:
  "length [1, 0 :: real] \<noteq> dimension scenario_index \<and>
   add_vector scenario_index 3 [1, 0] True = (False, scenario_index) \<and>
   search_similar scenario_index [1, 0] 5 None = [] \<and>
   add_vector_try scenario_index 3 [1, 0] True = (Inl ValueError, scenario_index) \<and>
   search_similar_try scenario_index [1, 0] 5 None = Inl ValueError"
proof -
  have h: "length [1, 0 :: real] \<noteq> dimension scenario_index"
    by (simp add: scenario_index_eq)
  show ?thesis
    using h dimension_mismatch_returns_failure[OF h, of 3 True 5 None]
    by (simp add: scenario_index_eq ntotal_def)
qed

text \<open>
  C1 as stated fails: with a three-component embedding on a four-dimensional engine the
  caller of \<open>add_vector\<close> receives \<open>False\<close> and the caller of \<open>search_similar\<close>
  receives \<open>[]\<close>; no error reaches either.
\<close>

theorem dimension_mismatch_not_raised:
  "add_vector (FaceVectorIndex_init 4 None) 7 [1, 2, 3] True = (False, FaceVectorIndex_init 4 None) \<and>
   search_similar scenario_index [1, 2, 3] 1 None = []"
  by (simp add: scenario_index_eq init_None_eq add_vector_def add_vector_try_def
      search_similar_def search_similar_try_def ntotal_def)

subsection \<open>C2: an index without its mappings\<close>

text \<open>
  C2 at a store that holds a one-vector index under the structure key and nothing under
  the mapping key: \<open>load_from_redis\<close> reports failure, yet the constructed engine holds
  the loaded vector while both dictionaries are empty.
\<close>

theorem load_without_mappings_keeps_index:
  "fst (load_from_redis \<lparr>dimension = 4, index = IndexFlatL2_new 4, id_map = [],
          reverse_map = [], redis_client = Some orphan_store\<rparr>) = False \<and>
   ntotal (index (FaceVectorIndex_init 4 (Some orphan_store))) = 1 \<and>
   id_map (FaceVectorIndex_init 4 (Some orphan_store)) = [] \<and>
   reverse_map (FaceVectorIndex_init 4 (Some orphan_store)) = []"
  by (simp add: orphan_store_def eval_defs)

subsection \<open>C3: the identity map is a bijection\<close>

text \<open>
  C3, as the code has it. From a consistent state, \<open>add_vector\<close> and \<open>remove_vector\<close>
  lead to a consistent state; \<open>rebuild_from_database\<close> leads to one from any state;
  construction gives one when the store is unreachable, when it holds no structure key,
  and when it holds a consistent snapshot under both keys. Every consistent state has the
  bijection property: as many bound profile ids as stored vectors, and profile id to
  position to profile id is the identity. (\<open>search_similar\<close> and \<open>check_duplicate\<close>
  do not change the state.)
\<close>

theorem identity_map_bijective_maintained:
  "(index_consistent s \<longrightarrow>
      identity_map_bijective s \<and>
      index_consistent (snd (add_vector s pid e persist)) \<and>
      identity_map_bijective (snd (add_vector s pid e persist)) \<and>
      index_consistent (snd (remove_vector s rid persist)) \<and>
      identity_map_bijective (snd (remove_vector s rid persist))) \<and>
   index_consistent (snd (rebuild_from_database s recs)) \<and>
   identity_map_bijective (snd (rebuild_from_database s recs)) \<and>
   index_consistent (FaceVectorIndex_init n None) \<and>
   identity_map_bijective (FaceVectorIndex_init n None) \<and>
   (index_key r = None \<or> snapshot_consistent n r \<longrightarrow>
      index_consistent (FaceVectorIndex_init n (Some r)) \<and>
      identity_map_bijective (FaceVectorIndex_init n (Some r)))"
  using add_vector_consistent[of s pid e persist] remove_vector_consistent[of s rid persist]
    rebuild_from_database_enrolled[of s recs] init_consistent
    consistent_bijective
  by blast

theorem identity_map_bijective_maintained_witness:
  "index_consistent scenario_index \<and> snapshot_consistent 4 scenario_store \<and>
   identity_map_bijective (snd (add_vector scenario_index 3 [0, 0, 1, 0] True)) \<and>
   identity_map_bijective (snd (remove_vector scenario_index 1 True)) \<and>
   identity_map_bijective (snd (rebuild_from_database scenario_index [(5, [1, 0, 0, 0])])) \<and>
   identity_map_bijective (FaceVectorIndex_init 4 (Some scenario_store))"
proof -
  have c: "index_consistent scenario_index" by (rule scenario_consistent)
  have sc: "snapshot_consistent 4 scenario_store"
    by (simp add: snapshot_consistent_def scenario_store_def index_consistent_def ntotal_def upt_rec)
  show ?thesis
    using c sc
      identity_map_bijective_maintained[of scenario_index 3 "[0, 0, 1, 0]" True 1
        "[(5, [1, 0, 0, 0])]" 4 scenario_store]
    by simp
qed

text \<open>
  C3 as stated fails: construction installs whatever the two keys hold. With a
  one-vector index beside empty mappings the engine has one vector and no bound id.
\<close>

theorem load_stale_snapshot_not_bijective:
  "\<not> identity_map_bijective (FaceVectorIndex_init 4 (Some stale_store))"
  by (simp add: stale_store_def identity_map_bijective_def eval_defs)

subsection \<open>C4: \<open>check_duplicate\<close> is the top-1 search\<close>

text \<open>
  C4. \<open>search_similar\<close> with \<open>k = 1\<close> and the same exclusion yields either no match,
  and then \<open>check_duplicate\<close> returns \<open>(False, None)\<close>, or exactly one match \<open>m\<close>, and
  then \<open>check_duplicate\<close> returns \<open>m\<close> as best match and is-duplicate is true exactly
  when the similarity of \<open>m\<close> is at least 0.85.
\<close>

theorem check_duplicate_is_search_top1:
  "(search_similar s e 1 ex = [] \<and> check_duplicate s e ex = (False, None)) \<or>
   (\<exists>m. search_similar s e 1 ex = [m] \<and>
      check_duplicate s e ex = (85 / 100 \<le> similarity m, Some m))"
proof -
  have "length (search_similar s e 1 ex) \<le> 1"
    using search_similar_length[of s e 1 ex] by simp
  then consider "search_similar s e 1 ex = []" | m where "search_similar s e 1 ex = [m]"
    by (cases "search_similar s e 1 ex") auto
  then show ?thesis
    by cases (auto simp: check_duplicate_def HIGH_CONFIDENCE_THRESHOLD_def)
qed

theorem check_duplicate_is_search_top1_witness:
  "check_duplicate scenario_index [1, 0, 0, 0] None =
     (True, Some \<lparr>face_profile_id = 1, similarity = 1, distance = 0, confidence_level = ''high''\<rparr>) \<and>
   check_duplicate scenario_index [0, 0, 1, 0] None =
     (False, Some \<lparr>face_profile_id = 1, similarity = 1 / 2, distance = 2,
                   confidence_level = ''low''\<rparr>)"
  using check_duplicate_is_search_top1[of scenario_index "[1, 0, 0, 0]" None]
    check_duplicate_is_search_top1[of scenario_index "[0, 0, 1, 0]" None]
  by (simp add: scenario_search_1)

subsection \<open>C5: similarity and confidence level\<close>

text \<open>
  C5. Every result of \<open>search_similar\<close> carries a distance \<open>d \<ge> 0\<close>, the similarity
  \<open>max 0 (1 - d / 4)\<close>, which lies between 0 and 1, and the level \<open>high\<close> exactly when
  the similarity is at least 0.85, \<open>medium\<close> exactly when it is at least 0.70 and below
  0.85, \<open>low\<close> exactly when it is below 0.70. So 0.85 is high, 0.84999 medium, 0.70
  medium and 0.69999 low.
\<close>

theorem similarity_and_confidence_of_results:
  "(\<forall>r \<in> set (search_similar s e k ex).
      0 \<le> distance r \<and>
      similarity r = max 0 (1 - distance r / 4) \<and>
      0 \<le> similarity r \<and> similarity r \<le> 1 \<and>
      (confidence_level r = ''high'' \<longleftrightarrow> 85 / 100 \<le> similarity r) \<and>
      (confidence_level r = ''medium'' \<longleftrightarrow> 70 / 100 \<le> similarity r \<and> similarity r < 85 / 100) \<and>
      (confidence_level r = ''low'' \<longleftrightarrow> similarity r < 70 / 100)) \<and>
   confidence_of (85 / 100) = ''high'' \<and> confidence_of (84999 / 100000) = ''medium'' \<and>
   confidence_of (70 / 100) = ''medium'' \<and> confidence_of (69999 / 100000) = ''low''"
proof -
  have "0 \<le> distance r \<and>
      similarity r = max 0 (1 - distance r / 4) \<and>
      0 \<le> similarity r \<and> similarity r \<le> 1 \<and>
      (confidence_level r = ''high'' \<longleftrightarrow> 85 / 100 \<le> similarity r) \<and>
      (confidence_level r = ''medium'' \<longleftrightarrow> 70 / 100 \<le> similarity r \<and> similarity r < 85 / 100) \<and>
      (confidence_level r = ''low'' \<longleftrightarrow> similarity r < 70 / 100)"
    if "r \<in> set (search_similar s e k ex)" for r
  proof -
    from search_similar_results[OF that] obtain dis where
      "0 \<le> dis" and "r = hit_result (face_profile_id r) dis"
      by blast
    then have d: "0 \<le> dis" "similarity r = similarity_of dis" "distance r = dis"
         "confidence_level r = confidence_of (similarity_of dis)"
      by (metis hit_result_sel)+
    show ?thesis
      using d similarity_of_range[OF d(1)] confidence_of_iff[of "similarity_of dis"]
      by (simp add: similarity_of_def)
  qed
  moreover have "confidence_of (85 / 100) = ''high''" "confidence_of (84999 / 100000) = ''medium''"
    "confidence_of (70 / 100) = ''medium''" "confidence_of (69999 / 100000) = ''low''"
    by (simp_all add: confidence_of_iff)
  ultimately show ?thesis by blast
qed

theorem similarity_and_confidence_of_results_witness:
  "\<lparr>face_profile_id = 2, similarity = 1 / 2, distance = 2, confidence_level = ''low''\<rparr>
     \<in> set (search_similar scenario_index [1, 0, 0, 0] 2 None) \<and>
   (1 / 2 :: real) = max 0 (1 - 2 / 4) \<and> (1 / 2 :: real) < 70 / 100"
  using similarity_and_confidence_of_results[of scenario_index "[1, 0, 0, 0]" 2 None]
  by (simp add: scenario_search_2)

subsection \<open>C6: removal rebuilds the index\<close>

text \<open>
  C6. For an unbound id \<open>remove_vector\<close> returns \<open>False\<close> and the state is unchanged.
  For a bound id in a consistent state it returns \<open>True\<close>; the new index holds the
  vectors of the other enrolled pairs in their former order, the dictionaries number
  their ids from 0 in that order, the count has gone down by exactly one, and no search
  on the new state returns the removed id.
\<close>

theorem remove_vector_compacts:
  "(map_of (reverse_map s) pid = None \<longrightarrow> remove_vector s pid persist = (False, s)) \<and>
   (index_consistent s \<and> map_of (reverse_map s) pid \<noteq> None \<longrightarrow>
      (let s' = snd (remove_vector s pid persist);
           survivors = [q\<leftarrow>enrolled s. fst q \<noteq> pid]
       in fst (remove_vector s pid persist) \<and>
          ix_vectors (index s') = map snd survivors \<and>
          id_map s' = zip (map int [0..<length survivors]) (map fst survivors) \<and>
          reverse_map s' = zip (map fst survivors) (map int [0..<length survivors]) \<and>
          Suc (ntotal (index s')) = ntotal (index s) \<and>
          (\<forall>q k ex. \<forall>r \<in> set (search_similar s' q k ex). face_profile_id r \<noteq> pid)))"
proof (intro conjI impI)
  assume "map_of (reverse_map s) pid = None"
  then show "remove_vector s pid persist = (False, s)" by (rule remove_vector_unbound)
next
  assume a: "index_consistent s \<and> map_of (reverse_map s) pid \<noteq> None"
  then have c: "index_consistent s" and b: "map_of (reverse_map s) pid \<noteq> None" by simp_all
  let ?s' = "snd (remove_vector s pid persist)"
  let ?sv = "[q\<leftarrow>enrolled s. fst q \<noteq> pid]"
  have c': "index_consistent ?s'" using c by (rule remove_vector_consistent)
  note r = remove_vector_enrolled[OF c b, of persist]
  note ce = consistent_enrolled[OF c']
  have "face_profile_id x \<noteq> pid" if "x \<in> set (search_similar ?s' q k ex)" for x q k ex
  proof -
    from search_similar_ids[OF that] have "face_profile_id x \<in> set (map snd (id_map ?s'))"
      by simp
    then have "face_profile_id x \<in> set (map fst ?sv)"
      using enrolled_ids[OF c'] r(2) by simp
    then show ?thesis by auto
  qed
  then show "let s' = snd (remove_vector s pid persist);
           survivors = [q\<leftarrow>enrolled s. fst q \<noteq> pid]
       in fst (remove_vector s pid persist) \<and>
          ix_vectors (index s') = map snd survivors \<and>
          id_map s' = zip (map int [0..<length survivors]) (map fst survivors) \<and>
          reverse_map s' = zip (map fst survivors) (map int [0..<length survivors]) \<and>
          Suc (ntotal (index s')) = ntotal (index s) \<and>
          (\<forall>q k ex. \<forall>r \<in> set (search_similar s' q k ex). face_profile_id r \<noteq> pid)"
    using r ce by (simp add: Let_def)
qed

theorem remove_vector_compacts_witness:
  "index_consistent scenario_index \<and> map_of (reverse_map scenario_index) 1 \<noteq> None \<and>
   map_of (reverse_map scenario_index) 9 = None \<and>
   remove_vector scenario_index 9 True = (False, scenario_index) \<and>
   fst (remove_vector scenario_index 1 True) \<and>
   ix_vectors (index (snd (remove_vector scenario_index 1 True))) = [[0, 1, 0, 0]] \<and>
   id_map (snd (remove_vector scenario_index 1 True)) = [(0, 2)] \<and>
   reverse_map (snd (remove_vector scenario_index 1 True)) = [(2, 0)] \<and>
   ntotal (index (snd (remove_vector scenario_index 1 True))) = 1 \<and>
   1 \<notin> face_profile_id `
         set (search_similar (snd (remove_vector scenario_index 1 True)) [1, 0, 0, 0] 2 None)"
proof -
  have b: "map_of (reverse_map scenario_index) 1 \<noteq> None"
    and u: "map_of (reverse_map scenario_index) 9 = None"
    by (simp_all add: scenario_index_eq)
  have n: "ntotal (index scenario_index) = 2" by (simp add: scenario_index_eq ntotal_def)
  show ?thesis
    using scenario_consistent b u n remove_vector_compacts[of scenario_index 1 True]
      remove_vector_compacts[of scenario_index 9 True]
    by (auto simp: scenario_enrolled Let_def)
qed

subsection \<open>C7: rebuilding from records\<close>

text \<open>
  C7, as the code has it. \<open>rebuild_from_database\<close> returns \<open>True\<close> and, whatever the
  state before, leaves exactly the kept records enrolled in the given order, normalised
  and numbered from 0, where a record is skipped when its id is among those already kept
  in this pass or when its embedding has not the engine's dimension. With a connected
  store it executes one pipeline, after the loop, which writes the final index and
  dictionaries; without a store nothing is written.
\<close>

theorem rebuild_from_database_keeps:
  "(let kept = kept_records (\<lambda>e. length e = dimension s) {} recs;
        s' = snd (rebuild_from_database s recs)
    in fst (rebuild_from_database s recs) \<and>
       dimension s' = dimension s \<and>
       index s' = \<lparr>ix_d = dimension s, ix_vectors = map (\<lambda>r. normalize (snd r)) kept\<rparr> \<and>
       id_map s' = zip (map int [0..<length kept]) (map fst kept) \<and>
       reverse_map s' = zip (map fst kept) (map int [0..<length kept]) \<and>
       redis_client s' =
         map_option (\<lambda>r. r\<lparr>index_key := Some (index s'),
                            map_key := Some \<lparr>mp_id_map = id_map s', mp_reverse_map = reverse_map s',
                                             mp_dimension = dimension s, mp_total = length kept\<rparr>,
                            executed := executed r + 1\<rparr>) (redis_client s))"
proof -
  let ?kept = "kept_records (\<lambda>e. length e = dimension s) {} recs"
  let ?s0 = "s\<lparr>index := IndexFlatL2_new (dimension s), id_map := [], reverse_map := []\<rparr>"
  let ?s1 = "rebuild_loop ?s0 recs"
  let ?s' = "snd (rebuild_from_database s recs)"
  have c0: "index_consistent ?s0"
    by (simp add: index_consistent_def IndexFlatL2_new_def ntotal_def)
  have e0: "enrolled ?s0 = []" by (simp add: enrolled_def)
  from rebuild_loop_enrolled[OF c0, of recs] e0
  have c1: "index_consistent ?s1"
    and e1: "enrolled ?s1 = map (\<lambda>r. (fst r, normalize (snd r))) ?kept"
    and d1: "dimension ?s1 = dimension s"
    and r1: "redis_client ?s1 = redis_client s"
    by simp_all
  have ixd: "ix_d (index ?s1) = dimension s"
    using c1 d1 by (simp add: index_consistent_def)
  have ix1: "index ?s1 = \<lparr>ix_d = dimension s, ix_vectors = map (\<lambda>r. normalize (snd r)) ?kept\<rparr>"
    using consistent_enrolled(1)[OF c1] ixd by (simp add: e1 comp_def)
  have im1: "id_map ?s1 = zip (map int [0..<length ?kept]) (map fst ?kept)"
    using consistent_enrolled(2)[OF c1] by (simp add: e1 comp_def)
  have rm1: "reverse_map ?s1 = zip (map fst ?kept) (map int [0..<length ?kept])"
    using consistent_enrolled(3)[OF c1] by (simp add: e1 comp_def)
  have nt: "ntotal (index ?s1) = length ?kept" by (simp add: ix1 ntotal_def)
  show ?thesis
  proof (cases "redis_client s")
    case None
    then have "?s' = ?s1" using r1 by (simp add: rebuild_from_database_def Let_def)
    then show ?thesis using None ix1 im1 rm1 d1 r1
      by (simp add: Let_def rebuild_from_database_def)
  next
    case (Some r)
    then have s': "?s' = snd (save_to_redis ?s1)"
      using r1 by (simp add: rebuild_from_database_def Let_def)
    have "redis_client (snd (save_to_redis ?s1)) =
       Some (r\<lparr>index_key := Some (index ?s1),
               map_key := Some \<lparr>mp_id_map = id_map ?s1, mp_reverse_map = reverse_map ?s1,
                                mp_dimension = dimension s, mp_total = length ?kept\<rparr>,
               executed := executed r + 1\<rparr>)"
      using Some r1 d1 nt by (simp add: save_to_redis_def)
    then show ?thesis using Some ix1 im1 rm1 d1 s'
      by (simp add: Let_def save_to_redis_fields rebuild_from_database_def)
  qed
qed

theorem rebuild_from_database_keeps_witness:
  "(let s' = snd (rebuild_from_database (FaceVectorIndex_init 4 (Some empty_store))
                    [(1, [1, 0, 0, 0]), (1, [0, 1, 0, 0]), (2, [1, 0]), (2, [0, 1, 0, 0])])
    in index s' = \<lparr>ix_d = 4, ix_vectors = [[1, 0, 0, 0], [0, 1, 0, 0]]\<rparr> \<and>
       id_map s' = [(0, 1), (1, 2)] \<and> reverse_map s' = [(1, 0), (2, 1)] \<and>
       map_option executed (redis_client s') = Some 1 \<and>
       map_option index_key (redis_client s') = Some (Some (index s')))"
proof -
  have i: "FaceVectorIndex_init 4 (Some empty_store) =
      \<lparr>dimension = 4, index = \<lparr>ix_d = 4, ix_vectors = []\<rparr>, id_map = [], reverse_map = [],
       redis_client = Some empty_store\<rparr>"
    by (simp add: empty_store_def eval_defs)
  have e: "executed empty_store = 0" by (simp add: empty_store_def)
  show ?thesis
    using rebuild_from_database_keeps[of "FaceVectorIndex_init 4 (Some empty_store)"
        "[(1, [1, 0, 0, 0]), (1, [0, 1, 0, 0]), (2, [1, 0]), (2, [0, 1, 0, 0])]"]
    by (simp add: i e Let_def normalize_def upt_rec)
qed

text \<open>
  C7 as stated fails: a single record with a two-component embedding collides with
  nothing, so the rule "skip exactly the collisions" keeps it, but the rebuild skips it.
\<close>

theorem rebuild_skips_wrong_dimension:
  "map snd (id_map (snd (rebuild_from_database (FaceVectorIndex_init 4 None) [(1, [1, 0])]))) = [] \<and>
   map fst (kept_records (\<lambda>e. True) {} [(1, [1, 0])]) = [1]"
  by (simp add: init_None_eq rebuild_from_database_def add_vector_def add_vector_try_def
      IndexFlatL2_new_def Let_def)

subsection \<open>C8: the exclusion id 0\<close>

text \<open>
  C8. With the exclusion id 0, \<open>search_similar\<close> and \<open>check_duplicate\<close> return what
  they return with no exclusion id: the test is on the truth value of the id.
\<close>

theorem exclude_zero_not_excluded:
  "search_similar s q k (Some 0) = search_similar s q k None \<and>
   check_duplicate s q (Some 0) = check_duplicate s q None"
proof -
  have "search_similar_try s q k (Some 0) = search_similar_try s q k None" for k
    by (simp add: search_similar_try_def search_loop_exclude_zero split: sum.splits)
  then show ?thesis
    by (simp add: search_similar_def check_duplicate_def)
qed

theorem exclude_zero_not_excluded_witness:
  "search_similar zero_id_index [1, 0, 0, 0] 1 (Some 0) =
     [\<lparr>face_profile_id = 0, similarity = 1, distance = 0, confidence_level = ''high''\<rparr>] \<and>
   check_duplicate zero_id_index [1, 0, 0, 0] (Some 0) =
     (True, Some \<lparr>face_profile_id = 0, similarity = 1, distance = 0, confidence_level = ''high''\<rparr>)"
  using exclude_zero_not_excluded[of zero_id_index "[1, 0, 0, 0]" 1]
  by (simp add: zero_id_search check_duplicate_def HIGH_CONFIDENCE_THRESHOLD_def)

subsection \<open>C9: a second insert of the same id\<close>

text \<open>
  C9. \<open>add_vector\<close> with an id that is already bound returns \<open>False\<close> and leaves the
  whole state as it was; in particular, after an insert that returned \<open>True\<close>, any
  further insert of the same id returns \<open>False\<close> and changes nothing.
\<close>

theorem add_vector_twice_rejected:
  "(map_of (reverse_map s) pid \<noteq> None \<longrightarrow> add_vector s pid e persist = (False, s)) \<and>
   (add_vector s pid e persist = (True, s') \<longrightarrow> add_vector s' pid e' persist' = (False, s'))"
  using add_vector_bound add_vector_True_bound by fastforce

theorem add_vector_twice_rejected_witness:
  "map_of (reverse_map scenario_index) 1 \<noteq> None \<and>
   add_vector scenario_index 1 [0, 0, 1, 0] True = (False, scenario_index) \<and>
   add_vector (FaceVectorIndex_init 4 None) 0 [1, 0, 0, 0] True = (True, zero_id_index) \<and>
   add_vector zero_id_index 0 [0, 1, 0, 0] False = (False, zero_id_index)"
proof -
  have b: "map_of (reverse_map scenario_index) 1 \<noteq> None" by (simp add: scenario_index_eq)
  have a: "add_vector (FaceVectorIndex_init 4 None) 0 [1, 0, 0, 0] True = (True, zero_id_index)"
    by (simp add: zero_id_index_eq eval_defs)
  show ?thesis
    using b a add_vector_twice_rejected[of scenario_index 1 "[0, 0, 1, 0]" True]
      add_vector_twice_rejected[of "FaceVectorIndex_init 4 None" 0 "[1, 0, 0, 0]" True
        zero_id_index "[0, 1, 0, 0]" False]
    by simp
qed

subsection \<open>C10: normalisation\<close>

text \<open>
  C10. The normalised embedding is the embedding itself when its Euclidean norm is 0 and
  the embedding divided by its norm otherwise, which then has norm 1. An insert of an
  unbound id with an embedding of the engine's dimension succeeds and appends the
  normalised embedding to the stored vectors. Every distance that a search reports is
  the squared distance between the normalised query and the stored vector at the
  position of the reported id.
\<close>

theorem embeddings_are_normalized:
  "normalize e = (if linalg_norm e = 0 then e else map (\<lambda>x. x / linalg_norm e) e) \<and>
   (linalg_norm e \<noteq> 0 \<longrightarrow> linalg_norm (normalize e) = 1) \<and>
   (map_of (reverse_map s) pid = None \<and> length e = dimension s \<and> ix_d (index s) = dimension s \<longrightarrow>
      fst (add_vector s pid e persist) \<and>
      ix_vectors (index (snd (add_vector s pid e persist))) = ix_vectors (index s) @ [normalize e]) \<and>
   (\<forall>r \<in> set (search_similar s e k ex).
      \<exists>idx. 0 \<le> idx \<and> idx < int (ntotal (index s)) \<and>
        map_of (id_map s) idx = Some (face_profile_id r) \<and>
        distance r = sqdist (normalize e) (ix_vectors (index s) ! nat idx))"
  using normalize_cases[of e] linalg_norm_normalize[of e]
    add_vector_stores_normalized[of s pid e persist] search_similar_distance[of _ s e k ex]
  by blast

theorem embeddings_are_normalized_witness:
  "normalize [0, 0, 0, 0] = [0, 0, 0, 0] \<and> normalize [0, 2, 0, 0] = [0, 1, 0, 0] \<and>
   map_of (reverse_map scenario_index) 3 = None \<and>
   ix_vectors (index (snd (add_vector scenario_index 3 [0, 0, 0, 0] True))) =
     [[1, 0, 0, 0], [0, 1, 0, 0], [0, 0, 0, 0]] \<and>
   \<lparr>face_profile_id = 1, similarity = 1, distance = 0, confidence_level = ''high''\<rparr>
     \<in> set (search_similar scenario_index [2, 0, 0, 0] 1 None) \<and>
   (\<exists>idx. 0 \<le> idx \<and> idx < int (ntotal (index scenario_index)) \<and>
      map_of (id_map scenario_index) idx = Some 1 \<and>
      0 = sqdist (normalize [2, 0, 0, 0]) (ix_vectors (index scenario_index) ! nat idx))"
proof -
  have u: "map_of (reverse_map scenario_index) 3 = None"
    and l: "length [0, 0, 0, 0 :: real] = dimension scenario_index"
    and d: "ix_d (index scenario_index) = dimension scenario_index"
    and v: "ix_vectors (index scenario_index) = [[1, 0, 0, 0], [0, 1, 0, 0]]"
    by (simp_all add: scenario_index_eq)
  show ?thesis
    using u l d embeddings_are_normalized[of "[0, 0, 0, 0]" scenario_index 3 True 1 None]
      embeddings_are_normalized[of "[0, 2, 0, 0]" scenario_index 3 True 1 None]
      embeddings_are_normalized[of "[2, 0, 0, 0]" scenario_index 3 True 1 None]
    by (auto simp: v scenario_search_1)
qed

end
